theory Spec2Isabelle
  imports Main
begin

section \<open>ChunkJoinStrings (strings.go)\<close>

text \<open>
  A Go string is a sequence of bytes and \<open>len\<close> is its byte count, so a string is a
  \<^typ>\<open>string\<close> (a list of 8-bit characters) and \<open>len\<close> is \<^const>\<open>length\<close>.
  The counters \<open>currlen\<close> and \<open>maxlength\<close> are Go \<open>int\<close>s; \<open>currlen\<close> only grows
  while it stays below \<open>maxlength\<close>, so no addition of the loop wraps around and
  \<^typ>\<open>int\<close> is exact.

  The locals of the function that live across iterations are the byte buffer, the
  running length and the list of finished strings. The flag \<open>iterate\<close> is false at the
  top of every iteration (it is cleared whenever it was set), so it is local to one
  iteration.
\<close>

record chunker =
  buffer :: string
  currlen :: int
  joined :: "string list"

text \<open>
  One pass of the loop body for the item \<open>param\<close> at index \<open>i\<close> of \<open>n\<close> items:
  the item is written when \<open>currlen + len(param) < maxlength\<close>, the separator is
  written when \<open>i + 1 < len(params)\<close> and \<open>currlen + len(sep) < maxlength\<close> (and then
  \<open>currlen\<close> is incremented by one), and when either test failed the buffer is
  appended to \<open>joined\<close> and reset.
\<close>

definition loop_body :: "int \<Rightarrow> string \<Rightarrow> nat \<Rightarrow> nat \<Rightarrow> string \<Rightarrow> chunker \<Rightarrow> chunker" where
  "loop_body maxlength sep n i param c =
    (let fits = currlen c + int (length param) < maxlength;
         buffer1 = (if fits then buffer c @ param else buffer c);
         currlen1 = (if fits then currlen c + int (length param) else currlen c);
         iterate1 = (\<not> fits);
         room = (i + 1 < n \<and> currlen1 + int (length sep) < maxlength);
         buffer2 = (if room then buffer1 @ sep else buffer1);
         currlen2 = (if room then currlen1 + 1 else currlen1);
         iterate2 = (iterate1 \<or> \<not> room)
     in if iterate2
        then \<lparr>buffer = [], currlen = 0, joined = joined c @ [buffer2]\<rparr>
        else \<lparr>buffer = buffer2, currlen = currlen2, joined = joined c\<rparr>)"

text \<open>The \<open>for i, param := range params\<close> loop, from index \<open>i\<close> on.\<close>

fun range_loop :: "int \<Rightarrow> string \<Rightarrow> nat \<Rightarrow> nat \<Rightarrow> string list \<Rightarrow> chunker \<Rightarrow> chunker" where
  "range_loop maxlength sep n i [] c = c"
| "range_loop maxlength sep n i (param # rest) c =
     range_loop maxlength sep n (i + 1) rest (loop_body maxlength sep n i param c)"

definition ChunkJoinStrings :: "string list \<Rightarrow> int \<Rightarrow> string \<Rightarrow> string list" where
  "ChunkJoinStrings params maxlength sep =
    (let c = range_loop maxlength sep (length params) 0 params
               \<lparr>buffer = [], currlen = 0, joined = []\<rparr>
     in if length (buffer c) > 0 then joined c @ [buffer c] else joined c)"


section \<open>ConcurrentMapString (strings.go)\<close>

text \<open>
  The field \<open>data\<close> is a Go \<open>map[string]string\<close>: a finite partial function from keys
  to values. An instance is obtained from \<open>NewConcurrentMapString\<close>, so \<open>data\<close> is never
  the nil map. Every method holds the lock of the embedded \<open>sync.RWMutex\<close> from its
  first to its last statement; the functions below are the bodies of the methods,
  executed one at a time.
\<close>

type_synonym ConcurrentMapString = "string \<rightharpoonup> string"

text \<open>
  The methods build their errors with \<open>fmt.Errorf\<close>; there are four message formats,
  each ending in the quoted key. One constructor stands for each format:
  \<^item> \<open>Cannot add map entry, key already exists: %q\<close>
  \<^item> \<open>Cannot delete map entry, key does not exist: %q\<close>
  \<^item> \<open>Cannot get map value, key does not exist: %q\<close>
  \<^item> \<open>Cannot set map value, key does not exist: %q\<close>

  The first is the error that the specification calls \<open>AlreadyExists\<close>; the other three
  are the ones it calls \<open>NotFound\<close>. A returned Go \<open>error\<close> is an \<open>error option\<close>, with
  \<open>None\<close> for \<open>nil\<close>.
\<close>

datatype error =
    add_key_already_exists string
  | delete_key_does_not_exist string
  | get_key_does_not_exist string
  | set_key_does_not_exist string

definition NewConcurrentMapString :: ConcurrentMapString where
  "NewConcurrentMapString = Map.empty"

definition Add :: "ConcurrentMapString \<Rightarrow> string \<Rightarrow> string \<Rightarrow> error option \<times> ConcurrentMapString" where
  "Add m key val =
    (case m key of
       Some _ \<Rightarrow> (Some (add_key_already_exists key), m)
     | None \<Rightarrow> (None, m(key \<mapsto> val)))"

definition Del :: "ConcurrentMapString \<Rightarrow> string \<Rightarrow> error option \<times> ConcurrentMapString" where
  "Del m key =
    (case m key of
       None \<Rightarrow> (Some (delete_key_does_not_exist key), m)
     | Some _ \<Rightarrow> (None, m(key := None)))"

text \<open>\<open>Get\<close> only reads the map; it returns the pair of the value and the error.\<close>

definition Get :: "ConcurrentMapString \<Rightarrow> string \<Rightarrow> string \<times> error option" where
  "Get m key =
    (case m key of
       None \<Rightarrow> ([], Some (get_key_does_not_exist key))
     | Some v \<Rightarrow> (v, None))"

definition Set :: "ConcurrentMapString \<Rightarrow> string \<Rightarrow> string \<Rightarrow> error option \<times> ConcurrentMapString" where
  "Set m key val =
    (case m key of
       None \<Rightarrow> (Some (set_key_does_not_exist key), m)
     | Some _ \<Rightarrow> (None, m(key \<mapsto> val)))"

definition Exists :: "ConcurrentMapString \<Rightarrow> string \<Rightarrow> bool" where
  "Exists m key = (case m key of None \<Rightarrow> False | Some _ \<Rightarrow> True)"

section \<open>BufferPool\<close>

text \<open>
  A \<open>*bytes.Buffer\<close> is \<open>nil\<close> or the address of a buffer in the heap. The pool and
  its callers share the buffers through these pointers, so the heap is explicit:
  \<open>mem\<close> gives the content of the buffer at each address and \<open>brk\<close> is the address
  that the next \<open>&bytes.Buffer{}\<close> receives. The channel \<open>pool.Buffers\<close> is the queue
  of the pointers it holds, oldest first, with its fixed capacity \<open>cap\<close>.
  Exhaustion of memory is outside the model.
\<close>

type_synonym addr = nat

datatype buf_ptr = nil | ref addr

record machine =
  mem :: "addr \<Rightarrow> string"
  brk :: addr
  Buffers :: "buf_ptr list"
  cap :: nat

datatype panic = makechan_size_out_of_range | nil_pointer_dereference

text \<open>\<open>make(chan *bytes.Buffer, max)\<close> panics on a negative size.\<close>

definition NewBufferPool :: "int \<Rightarrow> (addr \<Rightarrow> string) \<Rightarrow> addr \<Rightarrow> panic + machine" where
  "NewBufferPool max' h b =
    (if max' < 0 then Inl makechan_size_out_of_range
     else Inr \<lparr>mem = h, brk = b, Buffers = [], cap = nat max'\<rparr>)"

text \<open>The expression \<open>&bytes.Buffer{}\<close>: a new, empty buffer.\<close>

definition new_Buffer :: "machine \<Rightarrow> buf_ptr \<times> machine" where
  "new_Buffer s = (ref (brk s), s\<lparr>mem := (mem s)(brk s := []), brk := Suc (brk s)\<rparr>)"

text \<open>
  A \<open>select\<close> with a \<open>default\<close> case never waits. Its send case is taken exactly when
  the channel has a free slot, since no receiver ever waits on this channel (\<open>New\<close>
  receives inside a \<open>select\<close> with a \<open>default\<close> too); its receive case is taken
  exactly when the channel holds an element.
\<close>

definition try_send :: "buf_ptr \<Rightarrow> machine \<Rightarrow> machine option" where
  "try_send p s =
    (if length (Buffers s) < cap s then Some (s\<lparr>Buffers := Buffers s @ [p]\<rparr>) else None)"

definition try_receive :: "machine \<Rightarrow> (buf_ptr \<times> machine) option" where
  "try_receive s =
    (case Buffers s of [] \<Rightarrow> None | p # q \<Rightarrow> Some (p, s\<lparr>Buffers := q\<rparr>))"

text \<open>
  The loop of \<open>Warmup\<close>, from the counter \<open>i\<close> on. The operand of the send is
  evaluated when the \<open>select\<close> is entered, so a buffer is allocated on the pass that
  finds the channel full as well. The parameter \<open>length\<close> is not used.
\<close>

function Warmup_loop :: "int \<Rightarrow> int \<Rightarrow> machine \<Rightarrow> machine" where
  "Warmup_loop i num s =
    (if i < num
     then (case new_Buffer s of (p, s1) \<Rightarrow>
             (case try_send p s1 of
                Some s2 \<Rightarrow> Warmup_loop (i + 1) num s2
              | None \<Rightarrow> s1))
     else s)"
  by pat_completeness auto
termination
  by (relation "measure (\<lambda>(i, num, s). nat (num - i))") auto

definition Warmup :: "int \<Rightarrow> int \<Rightarrow> machine \<Rightarrow> machine" where
  "Warmup num len s = Warmup_loop 0 num s"

definition New :: "machine \<Rightarrow> buf_ptr \<times> machine" where
  "New s = (case try_receive s of Some (buf, s1) \<Rightarrow> (buf, s1) | None \<Rightarrow> new_Buffer s)"

text \<open>\<open>buf.Reset()\<close> dereferences \<open>buf\<close>.\<close>

definition Reset :: "buf_ptr \<Rightarrow> machine \<Rightarrow> panic + machine" where
  "Reset buf s =
    (case buf of
       nil \<Rightarrow> Inl nil_pointer_dereference
     | ref a \<Rightarrow> Inr (s\<lparr>mem := (mem s)(a := [])\<rparr>))"

definition Recycle :: "buf_ptr \<Rightarrow> machine \<Rightarrow> panic + machine" where
  "Recycle buf s =
    (case Reset buf s of
       Inl e \<Rightarrow> Inl e
     | Inr s1 \<Rightarrow> (case try_send buf s1 of Some s2 \<Rightarrow> Inr s2 | None \<Rightarrow> Inr s1))"

text \<open>
  What a program does with a pool and its buffers: the three methods, and
  \<open>buf.WriteString(data)\<close> on a buffer that the caller holds.
\<close>

datatype call =
    call_Warmup int int
  | call_New
  | call_Recycle buf_ptr
  | call_WriteString addr string

definition WriteString :: "addr \<Rightarrow> string \<Rightarrow> machine \<Rightarrow> machine" where
  "WriteString a data s = s\<lparr>mem := (mem s)(a := mem s a @ data)\<rparr>"

fun exec :: "call \<Rightarrow> machine \<Rightarrow> panic + machine" where
  "exec (call_Warmup num len) s = Inr (Warmup num len s)"
| "exec call_New s = Inr (snd (New s))"
| "exec (call_Recycle buf) s = Recycle buf s"
| "exec (call_WriteString a data) s = Inr (WriteString a data s)"

text \<open>A sequence of calls stops at the first panic.\<close>

fun run :: "call list \<Rightarrow> machine \<Rightarrow> panic + machine" where
  "run [] s = Inr s"
| "run (c # cs) s = (case exec c s of Inl e \<Rightarrow> Inl e | Inr s1 \<Rightarrow> run cs s1)"

text \<open>
  The convention of single ownership: a caller writes only to a buffer that the
  pool does not hold at that moment.
\<close>

fun in_pool :: "addr \<Rightarrow> machine \<Rightarrow> bool" where
  "in_pool a s = (ref a \<in> set (Buffers s))"

fun owner_writes_only :: "call list \<Rightarrow> machine \<Rightarrow> bool" where
  "owner_writes_only [] s = True"
| "owner_writes_only (c # cs) s =
    ((case c of call_WriteString a data \<Rightarrow> \<not> in_pool a s | _ \<Rightarrow> True) \<and>
     (case exec c s of Inl e \<Rightarrow> True | Inr s1 \<Rightarrow> owner_writes_only cs s1))"

text \<open>Every pointer in the channel is the address of an empty buffer.\<close>

fun is_empty_at :: "machine \<Rightarrow> buf_ptr \<Rightarrow> bool" where
  "is_empty_at s nil = False"
| "is_empty_at s (ref a) = (mem s a = [])"

definition pooled_empty :: "machine \<Rightarrow> bool" where
  "pooled_empty s = list_all (is_empty_at s) (Buffers s)"


section \<open>Properties of ChunkJoinStrings\<close>

text \<open>
  Claim C2, as the code has it. A string is closed before it reaches \<open>maxlength\<close>
  bytes, so the string \<open>a,bb\<close> of four bytes is never returned for \<open>maxlength = 4\<close>:
  the strings returned for the items \<open>a\<close>, \<open>bb\<close>, \<open>ccc\<close> and the separator \<open>,\<close> are
  then all shorter than four bytes. With \<open>maxlength = 5\<close> the function returns the two
  strings \<open>a,bb\<close> and \<open>ccc\<close>.
\<close>

theorem ChunkJoinStrings_example:
  "ChunkJoinStrings [''a'', ''bb'', ''ccc''] 5 '','' = [''a,bb'', ''ccc''] \<and>
   list_all (\<lambda>chunk. int (length chunk) < 4) (ChunkJoinStrings [''a'', ''bb'', ''ccc''] 4 '','')"
  by (simp add: ChunkJoinStrings_def loop_body_def)

text \<open>
  Claim C2 as stated fails: with \<open>maxlength = 4\<close> the function does not return
  \<open>a,bb\<close> and \<open>ccc\<close>. The item \<open>bb\<close> does not fit behind \<open>a,\<close>; what the function
  returns is \<open>a,,\<close> and \<open>ccc\<close>.
\<close>

theorem ChunkJoinStrings_example_counterexample:
  "ChunkJoinStrings [''a'', ''bb'', ''ccc''] 4 '','' = [''a,,'', ''ccc''] \<and>
   ChunkJoinStrings [''a'', ''bb'', ''ccc''] 4 '','' \<noteq> [''a,bb'', ''ccc'']"
  by (simp add: ChunkJoinStrings_def loop_body_def)

text \<open>
  Claim C1. With \<open>maxlength\<close> above the longest item plus the separator, every
  returned string should be shorter than \<open>maxlength\<close> and the items of the returned
  strings should be the items given, in order. The function loses the item \<open>bb\<close> of
  \<open>aa\<close>, \<open>bb\<close> with \<open>maxlength = 4\<close>; and with a separator of four bytes, which it
  counts as one, it returns a string of six bytes for \<open>maxlength = 6\<close>.
\<close>

theorem ChunkJoinStrings_drops_token:
  "ChunkJoinStrings [''aa'', ''bb''] 4 '','' = [''aa,''] \<and>
   ChunkJoinStrings [''a'', ''a'', ''a''] 6 '',,,,'' = [''a,,,,a'', ''a'']"
  by (simp add: ChunkJoinStrings_def loop_body_def)

text \<open>
  Claim C3. An item at least as long as \<open>maxlength\<close> should be returned as a string
  of its own. The function never writes such an item: alone it yields one empty string,
  and between two short items it disappears.
\<close>

theorem ChunkJoinStrings_oversized_token:
  "ChunkJoinStrings [''abcd''] 3 '','' = [[]] \<and>
   ChunkJoinStrings [''x'', ''abcd'', ''y''] 3 '','' = [''x,'', ''y'']"
  by (simp add: ChunkJoinStrings_def loop_body_def)

text \<open>
  When \<open>maxlength\<close> is not positive nothing fits, so every pass of the loop closes
  the current string.
\<close>

lemma loop_body_no_room:
  assumes "maxlength \<le> 0" and "0 \<le> currlen c"
  shows "loop_body maxlength sep n i param c =
           \<lparr>buffer = [], currlen = 0, joined = joined c @ [buffer c]\<rparr>"
  using assms by (simp add: loop_body_def Let_def)

lemma range_loop_no_room:
  assumes "maxlength \<le> 0" and "0 \<le> currlen c"
  shows "length (joined (range_loop maxlength sep n i params c)) = length (joined c) + length params
         \<and> (params \<noteq> [] \<longrightarrow> buffer (range_loop maxlength sep n i params c) = [])"
  using assms
proof (induction params arbitrary: i c)
  case Nil
  then show ?case by simp
next
  case (Cons param rest)
  let ?c1 = "loop_body maxlength sep n i param c"
  have c1: "?c1 = \<lparr>buffer = [], currlen = 0, joined = joined c @ [buffer c]\<rparr>"
    using Cons.prems by (rule loop_body_no_room)
  then have "0 \<le> currlen ?c1" by simp
  with Cons.IH [of ?c1 "i + 1"] Cons.prems(1)
  have ih: "length (joined (range_loop maxlength sep n (i + 1) rest ?c1)) = length (joined ?c1) + length rest"
    and ihb: "rest \<noteq> [] \<longrightarrow> buffer (range_loop maxlength sep n (i + 1) rest ?c1) = []"
    by simp_all
  show ?case
  proof (cases rest)
    case Nil
    then show ?thesis using c1 by simp
  next
    case (Cons a list)
    then show ?thesis using ih ihb c1 by simp
  qed
qed

text \<open>
  Claim C8, as the code has it. For no items the function returns no strings, whatever
  \<open>maxlength\<close> and the separator are. For \<open>maxlength \<le> 0\<close> it returns one string for
  each item, so the result is empty only when there are no items.
\<close>

theorem ChunkJoinStrings_degenerate:
  "ChunkJoinStrings [] maxlength sep = [] \<and>
   (maxlength \<le> 0 \<longrightarrow> length (ChunkJoinStrings params maxlength sep) = length params)"
proof
  show "ChunkJoinStrings [] maxlength sep = []"
    by (simp add: ChunkJoinStrings_def)
next
  show "maxlength \<le> 0 \<longrightarrow> length (ChunkJoinStrings params maxlength sep) = length params"
  proof
    assume m: "maxlength \<le> 0"
    let ?c0 = "\<lparr>buffer = [], currlen = 0, joined = []\<rparr>"
    have "0 \<le> currlen ?c0" by simp
    from range_loop_no_room [OF m this, of sep "length params" 0 params]
    have len: "length (joined (range_loop maxlength sep (length params) 0 params ?c0)) = length params"
      and buf: "params \<noteq> [] \<longrightarrow> buffer (range_loop maxlength sep (length params) 0 params ?c0) = []"
      by simp_all
    have "buffer (range_loop maxlength sep (length params) 0 params ?c0) = []"
      using buf by (cases params) simp_all
    then show "length (ChunkJoinStrings params maxlength sep) = length params"
      using len by (simp add: ChunkJoinStrings_def Let_def)
  qed
qed

theorem ChunkJoinStrings_degenerate_witness:
  "(0::int) \<le> 0 \<and> ChunkJoinStrings [] 0 '','' = [] \<and>
   length (ChunkJoinStrings [''a'', ''bb''] 0 '','') = 2"
  using ChunkJoinStrings_degenerate [of 0 "'',''" "[''a'', ''bb'']"] by simp

text \<open>
  Claim C8 as stated fails: for one item and \<open>maxlength = 0\<close> the result is one
  string, not the empty sequence.
\<close>

theorem ChunkJoinStrings_degenerate_counterexample:
  "(0::int) \<le> 0 \<and> ChunkJoinStrings [''a''] 0 '','' = [[]] \<and>
   ChunkJoinStrings [''a''] 0 '','' \<noteq> []"
  by (simp add: ChunkJoinStrings_def loop_body_def)

section \<open>Properties of ConcurrentMapString\<close>

text \<open>
  Claim C4. \<open>Add\<close> of an absent key succeeds, \<open>Get\<close> then returns the value added and
  a second \<open>Add\<close> of the key fails; \<open>Add\<close> of a present key fails with the error of
  an existing key; \<open>Get\<close>, \<open>Del\<close> and \<open>Set\<close> of an absent key fail with the error of
  a missing key, in particular \<open>Get\<close> after a successful \<open>Del\<close>; and each operation
  succeeds exactly when its condition on the presence of the key holds.
\<close>

theorem map_presence_conditions:
  "(\<not> Exists m k \<longrightarrow>
      fst (Add m k v) = None \<and> Get (snd (Add m k v)) k = (v, None) \<and>
      fst (Add (snd (Add m k v)) k w) = Some (add_key_already_exists k)) \<and>
   (Exists m k \<longrightarrow> fst (Add m k v) = Some (add_key_already_exists k)) \<and>
   (\<not> Exists m k \<longrightarrow>
      Get m k = ([], Some (get_key_does_not_exist k)) \<and>
      fst (Del m k) = Some (delete_key_does_not_exist k) \<and>
      fst (Set m k v) = Some (set_key_does_not_exist k)) \<and>
   (fst (Del m k) = None \<longrightarrow>
      \<not> Exists (snd (Del m k)) k \<and>
      Get (snd (Del m k)) k = ([], Some (get_key_does_not_exist k))) \<and>
   (fst (Add m k v) = None) = (\<not> Exists m k) \<and>
   (snd (Get m k) = None) = Exists m k \<and>
   (fst (Del m k) = None) = Exists m k \<and>
   (fst (Set m k v) = None) = Exists m k"
  by (cases "m k") (simp_all add: Add_def Del_def Get_def Set_def Exists_def)

theorem map_presence_conditions_witness:
  "\<not> Exists NewConcurrentMapString ''a'' \<and>
   fst (Add NewConcurrentMapString ''a'' ''1'') = None \<and>
   Get (snd (Add NewConcurrentMapString ''a'' ''1'')) ''a'' = (''1'', None) \<and>
   Get NewConcurrentMapString ''a'' = ([], Some (get_key_does_not_exist ''a'')) \<and>
   Exists [''a'' \<mapsto> ''1''] ''a'' \<and>
   fst (Add [''a'' \<mapsto> ''1''] ''a'' ''2'') = Some (add_key_already_exists ''a'') \<and>
   fst (Del [''a'' \<mapsto> ''1''] ''a'') = None \<and>
   Get (snd (Del [''a'' \<mapsto> ''1''] ''a'')) ''a'' = ([], Some (get_key_does_not_exist ''a''))"
proof -
  have absent: "\<not> Exists NewConcurrentMapString ''a''"
    by (simp add: Exists_def NewConcurrentMapString_def)
  have present: "Exists [''a'' \<mapsto> ''1''] ''a''"
    by (simp add: Exists_def)
  have del: "fst (Del [''a'' \<mapsto> ''1''] ''a'') = None"
    by (simp add: Del_def)
  show ?thesis
    using absent present del
      map_presence_conditions [of NewConcurrentMapString "''a''" "''1''" "''2''"]
      map_presence_conditions [of "[''a'' \<mapsto> ''1'']" "''a''" "''2''" "''3''"]
    by simp
qed

text \<open>
  Claim C5. When \<open>Add\<close>, \<open>Set\<close> or \<open>Del\<close> returns an error, the contents of the map
  after the call are its contents before the call.
\<close>

theorem map_error_leaves_contents:
  "(fst (Add m k v) = Some e \<longrightarrow> snd (Add m k v) = m) \<and>
   (fst (Set m k v) = Some e \<longrightarrow> snd (Set m k v) = m) \<and>
   (fst (Del m k) = Some e \<longrightarrow> snd (Del m k) = m)"
  by (cases "m k") (simp_all add: Add_def Del_def Set_def)

theorem map_error_leaves_contents_witness:
  "fst (Add [''a'' \<mapsto> ''1''] ''a'' ''2'') = Some (add_key_already_exists ''a'') \<and>
   snd (Add [''a'' \<mapsto> ''1''] ''a'' ''2'') = [''a'' \<mapsto> ''1''] \<and>
   fst (Set [''a'' \<mapsto> ''1''] ''b'' ''2'') = Some (set_key_does_not_exist ''b'') \<and>
   snd (Set [''a'' \<mapsto> ''1''] ''b'' ''2'') = [''a'' \<mapsto> ''1''] \<and>
   fst (Del [''a'' \<mapsto> ''1''] ''b'') = Some (delete_key_does_not_exist ''b'') \<and>
   snd (Del [''a'' \<mapsto> ''1''] ''b'') = [''a'' \<mapsto> ''1'']"
proof -
  have a: "fst (Add [''a'' \<mapsto> ''1''] ''a'' ''2'') = Some (add_key_already_exists ''a'')"
    by (simp add: Add_def)
  have s: "fst (Set [''a'' \<mapsto> ''1''] ''b'' ''2'') = Some (set_key_does_not_exist ''b'')"
    by (simp add: Set_def)
  have d: "fst (Del [''a'' \<mapsto> ''1''] ''b'') = Some (delete_key_does_not_exist ''b'')"
    by (simp add: Del_def)
  show ?thesis
    using a s d
      map_error_leaves_contents [of "[''a'' \<mapsto> ''1'']" "''a''" "''2''" "add_key_already_exists ''a''"]
      map_error_leaves_contents [of "[''a'' \<mapsto> ''1'']" "''b''" "''2''" "set_key_does_not_exist ''b''"]
      map_error_leaves_contents [of "[''a'' \<mapsto> ''1'']" "''b''" "''2''" "delete_key_does_not_exist ''b''"]
    by simp
qed


section \<open>Properties of BufferPool\<close>

subsection \<open>The channel stays within its capacity\<close>

lemma new_Buffer_channel:
  "Buffers (snd (new_Buffer s)) = Buffers s \<and> cap (snd (new_Buffer s)) = cap s"
  by (simp add: new_Buffer_def)

lemma try_send_channel:
  assumes "try_send p s = Some s2"
  shows "cap s2 = cap s \<and> length (Buffers s2) \<le> cap s \<and> Buffers s2 = Buffers s @ [p] \<and> mem s2 = mem s"
  using assms by (auto simp: try_send_def split: if_splits)

lemma Warmup_loop_bound:
  "length (Buffers s) \<le> cap s \<Longrightarrow>
     cap (Warmup_loop i num s) = cap s \<and> length (Buffers (Warmup_loop i num s)) \<le> cap s"
proof (induction i num s rule: Warmup_loop.induct)
  case (1 i num s)
  show ?case
  proof (cases "i < num")
    case False
    then show ?thesis using "1.prems" by simp
  next
    case True
    obtain p s1 where nb: "new_Buffer s = (p, s1)" by (cases "new_Buffer s")
    have s1: "Buffers s1 = Buffers s" "cap s1 = cap s"
      using new_Buffer_channel [of s] nb by simp_all
    show ?thesis
    proof (cases "try_send p s1")
      case None
      then show ?thesis using True nb s1 "1.prems" by simp
    next
      case (Some s2)
      from try_send_channel [OF Some]
      have "cap s2 = cap s1" and "length (Buffers s2) \<le> cap s1" by blast+
      with s1 have s2: "cap s2 = cap s" "length (Buffers s2) \<le> cap s2" by simp_all
      from "1.IH" [OF True nb [symmetric] Some s2(2)] s2(1)
      show ?thesis using True nb Some by simp
    qed
  qed
qed

lemma New_bound:
  "length (Buffers s) \<le> cap s \<Longrightarrow>
     cap (snd (New s)) = cap s \<and> length (Buffers (snd (New s))) \<le> cap s"
  by (cases "Buffers s") (simp_all add: New_def try_receive_def new_Buffer_def)

lemma Recycle_bound:
  assumes "Recycle buf s = Inr s'" and "length (Buffers s) \<le> cap s"
  shows "cap s' = cap s \<and> length (Buffers s') \<le> cap s"
  using assms
  by (cases buf) (auto simp: Recycle_def Reset_def try_send_def split: if_splits)

lemma exec_bound:
  assumes "exec c s = Inr s'" and "length (Buffers s) \<le> cap s"
  shows "cap s' = cap s \<and> length (Buffers s') \<le> cap s"
proof (cases c)
  case (call_Warmup num len)
  then show ?thesis using assms Warmup_loop_bound [of s 0 num] by (auto simp: Warmup_def)
next
  case call_New
  then show ?thesis using assms New_bound [of s] by auto
next
  case (call_Recycle buf)
  then show ?thesis using assms Recycle_bound [of buf s s'] by simp
next
  case (call_WriteString a data)
  then show ?thesis using assms by (auto simp: WriteString_def)
qed

lemma run_bound:
  "run cs s = Inr s' \<Longrightarrow> length (Buffers s) \<le> cap s \<Longrightarrow>
     cap s' = cap s \<and> length (Buffers s') \<le> cap s"
proof (induction cs arbitrary: s)
  case Nil
  then show ?case by simp
next
  case (Cons c cs)
  from Cons.prems(1) obtain s1 where c: "exec c s = Inr s1" and r: "run cs s1 = Inr s'"
    by (auto split: sum.splits)
  from exec_bound [OF c Cons.prems(2)] have b: "cap s1 = cap s" "length (Buffers s1) \<le> cap s1"
    by simp_all
  from Cons.IH [OF r b(2)] b(1) show ?case by simp
qed

text \<open>
  Claim C7. A pool made with capacity \<open>c\<close> never holds more than \<open>c\<close> buffers,
  whatever sequence of \<open>Warmup\<close>, \<open>New\<close> and \<open>Recycle\<close> (and of writes to buffers) has
  run on it; and \<open>Recycle\<close> of a buffer on a pool that holds \<open>c\<close> buffers returns
  normally and leaves the channel as it was, so the buffer is discarded.
\<close>

theorem pool_never_exceeds_capacity:
  assumes "NewBufferPool c h b = Inr s0" and "run calls s0 = Inr s"
  shows "cap s = nat c \<and> length (Buffers s) \<le> nat c \<and>
         (length (Buffers s) = nat c \<longrightarrow>
            (\<exists>s'. Recycle (ref a) s = Inr s' \<and> Buffers s' = Buffers s))"
proof -
  from assms(1) have s0: "Buffers s0 = []" "cap s0 = nat c"
    by (auto simp: NewBufferPool_def split: if_splits)
  then have "length (Buffers s0) \<le> cap s0" by simp
  from run_bound [OF assms(2) this] s0(2)
  have b: "cap s = nat c" "length (Buffers s) \<le> nat c" by simp_all
  have "length (Buffers s) = nat c \<longrightarrow> (\<exists>s'. Recycle (ref a) s = Inr s' \<and> Buffers s' = Buffers s)"
    using b(1) by (simp add: Recycle_def Reset_def try_send_def)
  with b show ?thesis by simp
qed

theorem pool_never_exceeds_capacity_witness:
  "NewBufferPool 2 (\<lambda>_. []) 0 = Inr \<lparr>mem = \<lambda>_. [], brk = 0, Buffers = [], cap = 2\<rparr> \<and>
   run [call_Warmup 5 0, call_New, call_Recycle (ref 0), call_Recycle (ref 7)]
       \<lparr>mem = \<lambda>_. [], brk = 0, Buffers = [], cap = 2\<rparr>
     = Inr \<lparr>mem = \<lambda>_. [], brk = 3, Buffers = [ref 1, ref 0], cap = 2\<rparr> \<and>
   (\<exists>s'. Recycle (ref 9) \<lparr>mem = \<lambda>_. [], brk = 3, Buffers = [ref 1, ref 0], cap = 2\<rparr> = Inr s' \<and>
         Buffers s' = [ref 1, ref 0])"
proof -
  have n: "NewBufferPool 2 (\<lambda>_. []) 0 = Inr \<lparr>mem = \<lambda>_. [], brk = 0, Buffers = [], cap = 2\<rparr>"
    by (simp add: NewBufferPool_def)
  have r: "run [call_Warmup 5 0, call_New, call_Recycle (ref 0), call_Recycle (ref 7)]
       \<lparr>mem = \<lambda>_. [], brk = 0, Buffers = [], cap = 2\<rparr>
     = Inr \<lparr>mem = \<lambda>_. [], brk = 3, Buffers = [ref 1, ref 0], cap = 2\<rparr>"
    by (simp add: Warmup_def New_def Recycle_def Reset_def try_send_def try_receive_def new_Buffer_def fun_upd_idem)
  show ?thesis
    using n r pool_never_exceeds_capacity [OF n r, of 9] by simp
qed

subsection \<open>The buffers in the channel are empty\<close>

lemma is_empty_at_iff: "is_empty_at s p = (\<exists>a. p = ref a \<and> mem s a = [])"
  by (cases p) simp_all

lemma pooled_empty_iff:
  "pooled_empty s = (\<forall>p \<in> set (Buffers s). \<exists>a. p = ref a \<and> mem s a = [])"
  by (simp add: pooled_empty_def list_all_iff is_empty_at_iff)

lemma pooled_empty_reset:
  "pooled_empty s \<Longrightarrow> pooled_empty (s\<lparr>mem := (mem s)(a := [])\<rparr>)"
  by (auto simp: pooled_empty_iff)

lemma pooled_empty_send:
  assumes "pooled_empty s" and "mem s a = []" and "try_send (ref a) s = Some s2"
  shows "pooled_empty s2"
  using assms by (auto simp: pooled_empty_iff try_send_def split: if_splits)

lemma new_Buffer_empty:
  assumes "new_Buffer s = (p, s1)"
  shows "\<exists>a. p = ref a \<and> mem s1 a = []" and "pooled_empty s \<Longrightarrow> pooled_empty s1"
proof -
  from assms have p: "p = ref (brk s)"
    and s1: "s1 = s\<lparr>mem := (mem s)(brk s := []), brk := Suc (brk s)\<rparr>"
    by (simp_all add: new_Buffer_def)
  show "\<exists>a. p = ref a \<and> mem s1 a = []" using p s1 by simp
  show "pooled_empty s1" if "pooled_empty s"
    using pooled_empty_reset [OF that, of "brk s"] s1 by (simp add: pooled_empty_iff)
qed

lemma Warmup_loop_empty:
  "pooled_empty s \<Longrightarrow> pooled_empty (Warmup_loop i num s)"
proof (induction i num s rule: Warmup_loop.induct)
  case (1 i num s)
  show ?case
  proof (cases "i < num")
    case False
    then show ?thesis using "1.prems" by simp
  next
    case True
    obtain p s1 where nb: "new_Buffer s = (p, s1)" by (cases "new_Buffer s")
    from new_Buffer_empty [OF nb] "1.prems"
    obtain a where p: "p = ref a" "mem s1 a = []" and e1: "pooled_empty s1" by blast
    show ?thesis
    proof (cases "try_send p s1")
      case None
      then show ?thesis using True nb e1 by simp
    next
      case (Some s2)
      from pooled_empty_send [OF e1 p(2)] Some p(1) have "pooled_empty s2" by simp
      from "1.IH" [OF True nb [symmetric] Some this]
      show ?thesis using True nb Some by simp
    qed
  qed
qed

lemma New_empty:
  assumes "pooled_empty s"
  shows "\<exists>a. fst (New s) = ref a \<and> mem (snd (New s)) a = []" and "pooled_empty (snd (New s))"
proof -
  show "\<exists>a. fst (New s) = ref a \<and> mem (snd (New s)) a = []"
  proof (cases "Buffers s")
    case Nil
    then show ?thesis by (simp add: New_def try_receive_def new_Buffer_def)
  next
    case (Cons p q)
    then show ?thesis using assms
      by (auto simp: New_def try_receive_def pooled_empty_iff)
  qed
  show "pooled_empty (snd (New s))"
  proof (cases "Buffers s")
    case Nil
    then have "New s = new_Buffer s" by (simp add: New_def try_receive_def)
    then show ?thesis using new_Buffer_empty(2) [of s "fst (New s)" "snd (New s)"] assms by simp
  next
    case (Cons p q)
    then show ?thesis using assms
      by (auto simp: New_def try_receive_def pooled_empty_iff)
  qed
qed

lemma Recycle_empty:
  assumes "Recycle buf s = Inr s'" and "pooled_empty s"
  shows "pooled_empty s'"
proof (cases buf)
  case nil
  then show ?thesis using assms by (simp add: Recycle_def Reset_def)
next
  case (ref a)
  let ?s1 = "s\<lparr>mem := (mem s)(a := [])\<rparr>"
  have e1: "pooled_empty ?s1" using assms(2) by (rule pooled_empty_reset)
  have m1: "mem ?s1 a = []" by simp
  show ?thesis
  proof (cases "try_send (ref a) ?s1")
    case None
    then have "s' = ?s1" using assms(1) ref by (simp add: Recycle_def Reset_def)
    then show ?thesis using e1 by simp
  next
    case (Some s2)
    then have "s' = s2" using assms(1) ref by (simp add: Recycle_def Reset_def)
    then show ?thesis using pooled_empty_send [OF e1 m1 Some] by simp
  qed
qed

lemma WriteString_empty:
  assumes "pooled_empty s" and "\<not> in_pool a s"
  shows "pooled_empty (WriteString a data s)"
  using assms by (auto simp: pooled_empty_iff WriteString_def)

lemma exec_empty:
  assumes "exec c s = Inr s'" and "pooled_empty s" and "owner_writes_only [c] s"
  shows "pooled_empty s'"
proof (cases c)
  case (call_Warmup num len)
  then show ?thesis using assms Warmup_loop_empty [of s 0 num] by (auto simp: Warmup_def)
next
  case call_New
  then show ?thesis using assms New_empty(2) [of s] by auto
next
  case (call_Recycle buf)
  then show ?thesis using assms Recycle_empty [of buf s s'] by simp
next
  case (call_WriteString a data)
  then show ?thesis using assms WriteString_empty [of s a data] by auto
qed

lemma run_empty:
  "run cs s = Inr s' \<Longrightarrow> pooled_empty s \<Longrightarrow> owner_writes_only cs s \<Longrightarrow> pooled_empty s'"
proof (induction cs arbitrary: s)
  case Nil
  then show ?case by simp
next
  case (Cons c cs)
  from Cons.prems(1) obtain s1 where c: "exec c s = Inr s1" and r: "run cs s1 = Inr s'"
    by (auto split: sum.splits)
  from Cons.prems(3) c have o1: "owner_writes_only [c] s" and o: "owner_writes_only cs s1"
    by simp_all
  from exec_empty [OF c Cons.prems(2) o1] have "pooled_empty s1" .
  from Cons.IH [OF r this o] show ?case .
qed

text \<open>
  Claim C6, as the code has it. As long as no caller writes to a buffer while the pool
  holds it, every buffer in the pool is empty and the buffer that \<open>New\<close> returns is
  empty; \<open>New\<close> on a pool that holds nothing returns the newly allocated buffer.
\<close>

theorem pool_hands_out_empty_buffers:
  assumes "NewBufferPool c h b = Inr s0" and "run calls s0 = Inr s"
    and "owner_writes_only calls s0"
  shows "pooled_empty s \<and>
         (\<exists>a. fst (New s) = ref a \<and> mem (snd (New s)) a = []) \<and>
         (Buffers s = [] \<longrightarrow> fst (New s) = ref (brk s))"
proof -
  from assms(1) have "Buffers s0 = []"
    by (auto simp: NewBufferPool_def split: if_splits)
  then have "pooled_empty s0" by (simp add: pooled_empty_iff)
  from run_empty [OF assms(2) this assms(3)] have e: "pooled_empty s" .
  have "Buffers s = [] \<longrightarrow> fst (New s) = ref (brk s)"
    by (simp add: New_def try_receive_def new_Buffer_def)
  with e New_empty(1) [OF e] show ?thesis by simp
qed

theorem pool_hands_out_empty_buffers_witness:
  "NewBufferPool 1 (\<lambda>_. []) 1 = Inr \<lparr>mem = \<lambda>_. [], brk = 1, Buffers = [], cap = 1\<rparr> \<and>
   run [call_WriteString 0 ''old'', call_Recycle (ref 0)]
       \<lparr>mem = \<lambda>_. [], brk = 1, Buffers = [], cap = 1\<rparr>
     = Inr \<lparr>mem = \<lambda>_. [], brk = 1, Buffers = [ref 0], cap = 1\<rparr> \<and>
   owner_writes_only [call_WriteString 0 ''old'', call_Recycle (ref 0)]
       \<lparr>mem = \<lambda>_. [], brk = 1, Buffers = [], cap = 1\<rparr> \<and>
   pooled_empty \<lparr>mem = \<lambda>_. [], brk = 1, Buffers = [ref 0], cap = 1\<rparr> \<and>
   (\<exists>a. fst (New \<lparr>mem = \<lambda>_. [], brk = 1, Buffers = [ref 0], cap = 1\<rparr>) = ref a \<and>
        mem (snd (New \<lparr>mem = \<lambda>_. [], brk = 1, Buffers = [ref 0], cap = 1\<rparr>)) a = [])"
proof -
  have n: "NewBufferPool 1 (\<lambda>_. []) 1 = Inr \<lparr>mem = \<lambda>_. [], brk = 1, Buffers = [], cap = 1\<rparr>"
    by (simp add: NewBufferPool_def)
  have r: "run [call_WriteString 0 ''old'', call_Recycle (ref 0)]
       \<lparr>mem = \<lambda>_. [], brk = 1, Buffers = [], cap = 1\<rparr>
     = Inr \<lparr>mem = \<lambda>_. [], brk = 1, Buffers = [ref 0], cap = 1\<rparr>"
    by (simp add: WriteString_def Recycle_def Reset_def try_send_def fun_upd_idem)
  have w: "owner_writes_only [call_WriteString 0 ''old'', call_Recycle (ref 0)]
       \<lparr>mem = \<lambda>_. [], brk = 1, Buffers = [], cap = 1\<rparr>"
    by (simp add: WriteString_def Recycle_def Reset_def try_send_def)
  show ?thesis
    using n r w pool_hands_out_empty_buffers [OF n r w] by simp
qed

text \<open>
  Claim C6 as stated fails, since the pool stores the pointer that the caller still has:
  after \<open>pool.Recycle(b)\<close> and \<open>b.WriteString("x")\<close> the pool holds a buffer that is not
  empty, and \<open>pool.New()\<close> returns it with the content \<open>x\<close>.
\<close>

theorem pool_hands_out_empty_buffers_counterexample:
  "NewBufferPool 1 (\<lambda>_. []) 1 = Inr \<lparr>mem = \<lambda>_. [], brk = 1, Buffers = [], cap = 1\<rparr> \<and>
   run [call_Recycle (ref 0), call_WriteString 0 ''x'']
       \<lparr>mem = \<lambda>_. [], brk = 1, Buffers = [], cap = 1\<rparr>
     = Inr \<lparr>mem = (\<lambda>_. [])(0 := ''x''), brk = 1, Buffers = [ref 0], cap = 1\<rparr> \<and>
   New \<lparr>mem = (\<lambda>_. [])(0 := ''x''), brk = 1, Buffers = [ref 0], cap = 1\<rparr>
     = (ref 0, \<lparr>mem = (\<lambda>_. [])(0 := ''x''), brk = 1, Buffers = [], cap = 1\<rparr>) \<and>
   mem \<lparr>mem = (\<lambda>_. [])(0 := ''x''), brk = 1, Buffers = [], cap = 1\<rparr> 0 = ''x'' \<and>
   \<not> pooled_empty \<lparr>mem = (\<lambda>_. [])(0 := ''x''), brk = 1, Buffers = [ref 0], cap = 1\<rparr>"
  by (simp add: NewBufferPool_def WriteString_def Recycle_def Reset_def try_send_def
      New_def try_receive_def pooled_empty_def)

text \<open>
  Claim C10. \<open>Recycle\<close> of a buffer returns normally with the content of that buffer
  empty, whether the pointer was stored in the channel or, the channel being full,
  discarded.
\<close>

theorem Recycle_resets_unconditionally:
  "\<exists>s'. Recycle (ref a) s = Inr s' \<and> mem s' a = [] \<and>
        Buffers s' = (if length (Buffers s) < cap s then Buffers s @ [ref a] else Buffers s)"
  by (simp add: Recycle_def Reset_def try_send_def)

theorem Recycle_resets_unconditionally_witness:
  "\<exists>s'. Recycle (ref 0) \<lparr>mem = (\<lambda>_. [])(0 := ''x''), brk = 2, Buffers = [ref 1], cap = 1\<rparr> = Inr s' \<and>
        mem s' 0 = [] \<and> Buffers s' = [ref 1]"
  using Recycle_resets_unconditionally
          [of 0 "\<lparr>mem = (\<lambda>_. [])(0 := ''x''), brk = 2, Buffers = [ref 1], cap = 1\<rparr>"]
  by simp

end
